theory Spec2Isabelle
  imports Main "HOL-Library.Word"
begin

section \<open>The registry filesystem (registryfs_v2.cpp)\<close>

text \<open>
  A shallow embedding of \<^verbatim>\<open>RegistryFSImpl_v2\<close> and \<^verbatim>\<open>RegistryFileImpl_v2\<close>.
  The HTTP client, the base64 and JSON decoders, the password callback and the clock are
  collaborators of the code; they are parameters of the model (the record \<open>env\<close>) or
  fields of the state. Every function takes the state and returns the new one.
\<close>

subsection \<open>Strings (estring)\<close>

definition starts_with :: "string \<Rightarrow> string \<Rightarrow> bool" where
  \<comment> \<open>\<^verbatim>\<open>s.starts_with(x)\<close>: a byte-wise comparison of the first \<open>length x\<close> characters\<close>
  "starts_with s x = (length x \<le> length s \<and> take (length x) s = x)"

fun split_raw :: "char \<Rightarrow> string \<Rightarrow> string list" where
  "split_raw c [] = [[]]"
| "split_raw c (x # xs) =
     (if x = c then [] # split_raw c xs
      else (case split_raw c xs of [] \<Rightarrow> [[x]] | t # ts \<Rightarrow> (x # t) # ts))"

definition estring_split :: "string \<Rightarrow> char \<Rightarrow> string list" where
  \<comment> \<open>\<^verbatim>\<open>src.split(',')\<close>: the pieces between delimiters; consecutive delimiters are merged,
      so no piece is empty\<close>
  "estring_split src c = filter (\<lambda>t. t \<noteq> []) (split_raw c src)"

definition find_first_of :: "string \<Rightarrow> char \<Rightarrow> nat option" where
  \<comment> \<open>\<^verbatim>\<open>npos\<close> is \<open>None\<close>\<close>
  "find_first_of s c = (if c \<in> set s then Some (length (takeWhile (\<lambda>x. x \<noteq> c) s)) else None)"

definition estring_trim :: "string \<Rightarrow> char \<Rightarrow> string" where
  \<comment> \<open>\<^verbatim>\<open>s.trim(c)\<close>: drops every leading and every trailing \<open>c\<close>\<close>
  "estring_trim s c = rev (dropWhile (\<lambda>x. x = c) (rev (dropWhile (\<lambda>x. x = c) s)))"

definition kv_of_token :: "string \<Rightarrow> string \<times> string" where
  \<comment> \<open>the loop body of \<^verbatim>\<open>str_to_kvmap\<close>; with no \<^verbatim>\<open>'='\<close>, \<^verbatim>\<open>pos\<close> is \<^verbatim>\<open>npos\<close>:
      \<^verbatim>\<open>substr(0, npos)\<close> is the whole token and \<^verbatim>\<open>npos + 1\<close> wraps to 0\<close>
  "kv_of_token token =
     (case find_first_of token CHR ''='' of
        Some pos \<Rightarrow> (take pos token, estring_trim (drop (pos + 1) token) CHR 0x22)
      | None \<Rightarrow> (token, estring_trim token CHR 0x22))"

definition str_to_kvmap :: "string \<Rightarrow> (string \<times> string) list" where
  \<comment> \<open>the pairs in the order of their \<^verbatim>\<open>emplace\<close>; \<^verbatim>\<open>emplace\<close> keeps the first value of a
      key, as \<open>map_of\<close> does on this list\<close>
  "str_to_kvmap src = map kv_of_token (estring_split src CHR '','')"

definition kDockerRegistryAuthChallengeKeyValuePrefix :: string where
  "kDockerRegistryAuthChallengeKeyValuePrefix = ''www-authenticate''"

definition kAuthHeaderKey :: string where
  "kAuthHeaderKey = ''Authorization''"

definition kBearerAuthPrefix :: string where
  "kBearerAuthPrefix = ''Bearer ''"

definition kMinimalTokenLife :: nat where
  "kMinimalTokenLife = 30 * 1000 * 1000"

definition kMinimalAUrlLife :: nat where
  "kMinimalAUrlLife = 300 * 1000 * 1000"

subsection \<open>HTTP operations\<close>

text \<open>
  A request is what the code puts into \<^verbatim>\<open>op.req\<close>: the URL, the headers it inserts and
  the range of \<^verbatim>\<open>headers.range(from, to)\<close>. Every request of this file is a GET. The options
  \<^verbatim>\<open>follow\<close>, \<^verbatim>\<open>retry\<close>, \<^verbatim>\<open>timeout\<close> and the proxy flag are handed to the client and
  decide nothing in this file; the server function below answers for the client, and says
  how long each call takes. So the \<^verbatim>\<open>timeout\<close> parameters of \<^verbatim>\<open>get_data\<close>,
  \<^verbatim>\<open>get_actual_url\<close>, \<^verbatim>\<open>get_scope_auth\<close> and \<^verbatim>\<open>authenticate\<close>, which only set
  \<^verbatim>\<open>op.timeout\<close>, are not parameters of the model; the deadlines that the code tests
  itself (in \<^verbatim>\<open>get_length\<close> and \<^verbatim>\<open>preadv\<close>) are.
\<close>

record request =
  req_url :: string
  req_headers :: "(string \<times> string) list"
  req_range :: "(64 word \<times> 64 word) option"

record response =
  resp_headers :: "(string \<times> string) list"
  resp_body :: string

record HTTP_OP =
  req :: request
  status_code :: int
  resp :: response

definition HTTP_OP_new :: HTTP_OP where
  \<comment> \<open>\<^verbatim>\<open>HTTP_OP op;\<close> before any call: the client library starts \<^verbatim>\<open>status_code\<close> at -1\<close>
  "HTTP_OP_new =
     \<lparr>req = \<lparr>req_url = [], req_headers = [], req_range = None\<rparr>, status_code = -1,
      resp = \<lparr>resp_headers = [], resp_body = []\<rparr>\<rparr>"

definition lower_char :: "char \<Rightarrow> char" where
  "lower_char c =
     (case map_of (zip ''ABCDEFGHIJKLMNOPQRSTUVWXYZ'' ''abcdefghijklmnopqrstuvwxyz'') c of
        Some d \<Rightarrow> d | None \<Rightarrow> c)"

definition headers_find :: "(string \<times> string) list \<Rightarrow> string \<Rightarrow> string option" where
  \<comment> \<open>Modelled from the spec: the response headers map of the HTTP client, with
      case-insensitive lookup of the header name (section 6)\<close>
  "headers_find hs k =
     map_option snd (find (\<lambda>(k', v). map lower_char k' = map lower_char k) hs)"

definition headers_get :: "(string \<times> string) list \<Rightarrow> string \<Rightarrow> string" where
  \<comment> \<open>\<^verbatim>\<open>headers["Location"]\<close>: the empty string when the header is absent\<close>
  "headers_get hs k = (case headers_find hs k of Some v \<Rightarrow> v | None \<Rightarrow> [])"

subsection \<open>Errors\<close>

datatype errno = ENOENT | EINVAL | EPERM | ETIMEDOUT

datatype error =
    Errno errno        \<comment> \<open>the function returns -1 (or null) after setting \<^verbatim>\<open>errno\<close>\<close>
  | Unset              \<comment> \<open>the function returns -1 and leaves \<^verbatim>\<open>errno\<close> as it was\<close>
  | NullDeref          \<comment> \<open>a null \<^verbatim>\<open>estring*\<close> is dereferenced: the call has no defined result\<close>
  | RapidjsonAssert    \<comment> \<open>\<^verbatim>\<open>HasMember\<close> on a document that is no object, or
                           \<^verbatim>\<open>GetString\<close> on a member that is no string\<close>

subsection \<open>JSON documents (rapidjson)\<close>

datatype json = JObject "(string \<times> json) list" | JString string | JOther

subsection \<open>The expiring object cache\<close>

record 'v entry =
  entry_value :: 'v
  expires_at :: nat
  refcount :: nat
  poisoned :: bool

type_synonym 'v cache = "string \<rightharpoonup> 'v entry"

datatype cache_id = ScopeToken | UrlInfoCache

datatype event = Acquire cache_id string | Release cache_id string bool

subsection \<open>URL information\<close>

datatype UrlMode = Redirect | Self

record UrlInfo =
  mode :: UrlMode
  info :: string

subsection \<open>Collaborators and state\<close>

record env =
  serve :: "request list \<Rightarrow> request \<Rightarrow> (int \<times> response) \<times> nat"
    \<comment> \<open>the HTTP client and the servers behind it: from the requests sent so far and the
        new request, the status code, the response and the time the call takes\<close>
  Base64Encode :: "string \<Rightarrow> string"
  json_parse :: "string \<Rightarrow> json option"
    \<comment> \<open>\<^verbatim>\<open>d.Parse(...)\<close>; \<open>None\<close> is \<^verbatim>\<open>HasParseError()\<close>\<close>
  m_callback :: "string \<Rightarrow> string \<times> string"
  resource_size :: "(string \<times> string) list \<Rightarrow> 64 word"
    \<comment> \<open>\<^verbatim>\<open>op.resp.resource_size()\<close>, computed by the client from the response headers\<close>

record state =
  now :: nat                              \<comment> \<open>\<^verbatim>\<open>photon::now\<close>, in microseconds\<close>
  sent :: "request list"                  \<comment> \<open>the requests issued so far, oldest first\<close>
  trace :: "event list"                   \<comment> \<open>the cache handles taken and given back, oldest first\<close>
  m_accelerate :: string
  m_scope_token :: "string cache"
  m_url_info :: "UrlInfo cache"

definition call :: "env \<Rightarrow> request \<Rightarrow> state \<Rightarrow> HTTP_OP \<times> state" where
  \<comment> \<open>\<^verbatim>\<open>op.call()\<close> and \<^verbatim>\<open>m_client->call(&op)\<close>\<close>
  "call e rq s =
     (case serve e (sent s) rq of
        ((code, rs), dt) \<Rightarrow>
          (\<lparr>req = rq, status_code = code, resp = rs\<rparr>,
           s\<lparr>now := now s + dt, sent := sent s @ [rq]\<rparr>))"

subsection \<open>The challenge: get_scope_auth\<close>

definition get_scope_auth :: "env \<Rightarrow> string \<Rightarrow> state \<Rightarrow> (error + string \<times> string) \<times> state" where
  \<comment> \<open>the result is \<open>(authurl, scope)\<close>; both are empty strings of the caller until assigned\<close>
  "get_scope_auth e url s =
     (case call e \<lparr>req_url = url, req_headers = [], req_range = Some (0, 0)\<rparr> s of
        (op, s1) \<Rightarrow>
          if status_code op = -1 then (Inl (Errno ENOENT), s1)
          else if status_code op \<noteq> 401 \<and> status_code op \<noteq> 403 then (Inr ([], []), s1)
          else
            (case headers_find (resp_headers (resp op)) kDockerRegistryAuthChallengeKeyValuePrefix of
               None \<Rightarrow> (Inl (Errno EINVAL), s1)
             | Some challengeLine \<Rightarrow>
                 if \<not> starts_with challengeLine kBearerAuthPrefix then (Inl (Errno EINVAL), s1)
                 else
                   (let challengeLine' = drop (length kBearerAuthPrefix) challengeLine;
                        kv = map_of (str_to_kvmap challengeLine')
                    in if kv ''realm'' = None \<or> kv ''service'' = None \<or> kv ''scope'' = None
                       then (Inl (Errno EINVAL), s1)
                       else
                         (Inr (the (kv ''realm'') @ ''?service='' @ the (kv ''service'') @
                               ''&scope='' @ the (kv ''scope''),
                               the (kv ''scope'')), s1))))"

subsection \<open>Token acquisition: parse_token and authenticate\<close>

definition GetString :: "json \<Rightarrow> error + string" where
  "GetString v = (case v of JString t \<Rightarrow> Inr t | _ \<Rightarrow> Inl RapidjsonAssert)"

definition parse_token :: "env \<Rightarrow> string \<Rightarrow> error + string option" where
  \<comment> \<open>\<open>Inr (Some token)\<close> is the return value 0 with \<^verbatim>\<open>*token\<close> assigned, \<open>Inr None\<close> is -1\<close>
  "parse_token e jsonStr =
     (case json_parse e jsonStr of
        None \<Rightarrow> Inr None
      | Some d \<Rightarrow>
          (case d of
             JObject members \<Rightarrow>
               (case map_of members ''token'' of
                  Some v \<Rightarrow> map_sum id Some (GetString v)
                | None \<Rightarrow>
                    (case map_of members ''access_token'' of
                       Some v \<Rightarrow> map_sum id Some (GetString v)
                     | None \<Rightarrow> Inr None))
           | _ \<Rightarrow> Inl RapidjsonAssert))"

definition authenticate ::
  "env \<Rightarrow> string \<Rightarrow> string \<Rightarrow> string \<Rightarrow> state \<Rightarrow> (error + string option) \<times> state" where
  \<comment> \<open>\<open>Inr (Some token)\<close> is \<^verbatim>\<open>true\<close> with \<^verbatim>\<open>*token\<close> assigned, \<open>Inr None\<close> is \<^verbatim>\<open>false\<close>;
      \<^verbatim>\<open>op.resp.read\<close> delivers the first 16 KiB of the body\<close>
  "authenticate e authurl username password s =
     (let userpwd_b64 = Base64Encode e (username @ '':'' @ password);
          headers = (if username \<noteq> [] then [(kAuthHeaderKey, ''Basic '' @ userpwd_b64)] else [])
      in case call e \<lparr>req_url = authurl, req_headers = headers, req_range = None\<rparr> s of
           (op, s1) \<Rightarrow>
             if status_code op \<noteq> 200 then (Inr None, s1)
             else (parse_token e (take (16 * 1024) (resp_body (resp op))), s1))"

subsection \<open>ObjectCache: acquire and release\<close>

definition lookup_live :: "'v cache \<Rightarrow> nat \<Rightarrow> string \<Rightarrow> 'v entry option" where
  \<comment> \<open>Modelled from the spec: the entry of a key, if it has one that has not expired
      (expiry is checked on acquire, section 4.1)\<close>
  "lookup_live c t key =
     (case c key of Some en \<Rightarrow> if t < expires_at en then Some en else None | None \<Rightarrow> None)"

definition acquire ::
  "(state \<Rightarrow> 'v cache) \<Rightarrow> (('v cache \<Rightarrow> 'v cache) \<Rightarrow> state \<Rightarrow> state) \<Rightarrow> cache_id \<Rightarrow> nat \<Rightarrow>
   string \<Rightarrow> ('l \<Rightarrow> state \<Rightarrow> (error + 'v option) \<times> 'l \<times> state) \<Rightarrow> 'l \<Rightarrow> state \<Rightarrow>
   (error + 'v option) \<times> 'l \<times> state" where
  \<comment> \<open>Modelled from the spec: \<^verbatim>\<open>ObjectCache::acquire(key, ctor)\<close> of the expiring
      single-flight cache (section 4.1). A live entry is handed out with its refcount
      incremented; otherwise the constructor runs, and its result is installed with the
      cache's lifetime unless it is null, which is not cached. \<open>'l\<close> is the local variable
      the constructor captures by reference.\<close>
  "acquire sel upd cid life key ctor l s =
     (case lookup_live (sel s) (now s) key of
        Some en \<Rightarrow>
          (Inr (Some (entry_value en)), l,
           (upd (\<lambda>c. c(key \<mapsto> en\<lparr>refcount := refcount en + 1\<rparr>)) s)
             \<lparr>trace := trace s @ [Acquire cid key]\<rparr>)
      | None \<Rightarrow>
          (case ctor l s of
             (Inl err, l', s') \<Rightarrow> (Inl err, l', s')
           | (Inr None, l', s') \<Rightarrow> (Inr None, l', s')
           | (Inr (Some v), l', s') \<Rightarrow>
               (Inr (Some v), l',
                (upd (\<lambda>c. c(key \<mapsto> \<lparr>entry_value = v, expires_at = now s' + life,
                                      refcount = 1, poisoned = False\<rparr>)) s')
                  \<lparr>trace := trace s' @ [Acquire cid key]\<rparr>)))"

definition release_entry :: "'v cache \<Rightarrow> nat \<Rightarrow> string \<Rightarrow> bool \<Rightarrow> 'v cache" where
  \<comment> \<open>Modelled from the spec: release decrements the refcount; when it reaches zero and the
      entry is poisoned or expired, the entry is dropped (section 4.1)\<close>
  "release_entry c t key recycle =
     (case c key of
        None \<Rightarrow> c
      | Some en \<Rightarrow>
          (let en' = en\<lparr>refcount := refcount en - 1, poisoned := (poisoned en \<or> recycle)\<rparr>
           in if refcount en' = 0 \<and> (poisoned en' \<or> expires_at en' \<le> t)
              then c(key := None) else c(key \<mapsto> en')))"

definition release ::
  "(('v cache \<Rightarrow> 'v cache) \<Rightarrow> state \<Rightarrow> state) \<Rightarrow> cache_id \<Rightarrow> string \<Rightarrow> bool \<Rightarrow> state \<Rightarrow> state" where
  \<comment> \<open>\<^verbatim>\<open>cache.release(key, recycle)\<close>; \<^verbatim>\<open>recycle\<close> is the poison flag\<close>
  "release upd cid key recycle s =
     (upd (\<lambda>c. release_entry c (now s) key recycle) s)
       \<lparr>trace := trace s @ [Release cid key recycle]\<rparr>"

subsection \<open>The URL resolver: get_actual_url\<close>

definition token_ctor ::
  "env \<Rightarrow> string \<Rightarrow> string \<Rightarrow> int \<Rightarrow> state \<Rightarrow> (error + string option) \<times> int \<times> state" where
  \<comment> \<open>the constructor given to \<^verbatim>\<open>m_scope_token.acquire\<close> (lines 189 to 198); it captures
      \<^verbatim>\<open>code\<close> by reference\<close>
  "token_ctor e url authurl code s =
     (case m_callback e url of
        (username, password) \<Rightarrow>
          (case authenticate e authurl username password s of
             (Inl err, s1) \<Rightarrow> (Inl err, code, s1)
           | (Inr None, s1) \<Rightarrow> (Inr None, 401, s1)
           | (Inr (Some token), s1) \<Rightarrow> (Inr (Some token), code, s1)))"

definition reget ::
  "env \<Rightarrow> string \<Rightarrow> string \<Rightarrow> string option \<Rightarrow> state \<Rightarrow> (error + UrlInfo option) \<times> state" where
  \<comment> \<open>lines 203 to 232 of \<^verbatim>\<open>get_actual_url\<close>: the second GET and what is made of its status.
      \<^verbatim>\<open>token\<close> is a pointer, null (\<open>None\<close>) when no scope token was acquired; line 207
      appends \<^verbatim>\<open>*token\<close> to the header without a test.\<close>
  "reget e url scope token s =
     (case token of
        None \<Rightarrow> (Inl NullDeref, s)
      | Some tok \<Rightarrow>
          (case call e \<lparr>req_url = url, req_headers = [(kAuthHeaderKey, ''Bearer '' @ tok)],
                        req_range = None\<rparr> s of
             (op, s1) \<Rightarrow>
               if 300 \<le> status_code op \<and> status_code op < 400 then
                 (Inr (Some \<lparr>mode = Redirect,
                             info = headers_get (resp_headers (resp op)) ''Location''\<rparr>),
                  if scope \<noteq> [] then release m_scope_token_update ScopeToken scope False s1 else s1)
               else if status_code op = 200 then
                 (Inr (Some \<lparr>mode = Self,
                             info = (if token \<noteq> None \<and> tok \<noteq> [] then kBearerAuthPrefix @ tok
                                     else [])\<rparr>),
                  if scope \<noteq> [] then release m_scope_token_update ScopeToken scope False s1 else s1)
               else
                 (Inr None,
                  if scope \<noteq> [] then release m_scope_token_update ScopeToken scope True s1 else s1)))"

definition get_actual_url ::
  "env \<Rightarrow> string \<Rightarrow> int \<Rightarrow> state \<Rightarrow> (error + UrlInfo option) \<times> int \<times> state" where
  \<comment> \<open>\<open>Inr None\<close> is the null result; the \<open>int\<close> is \<^verbatim>\<open>code\<close>, passed by reference\<close>
  "get_actual_url e url code s =
     (case get_scope_auth e url s of
        (Inl err, s1) \<Rightarrow> (Inr None, code, s1)
      | (Inr (authurl, scope), s1) \<Rightarrow>
          if scope \<noteq> [] then
            (case acquire m_scope_token m_scope_token_update ScopeToken kMinimalTokenLife scope
                    (token_ctor e url authurl) code s1 of
               (Inl err, code', s2) \<Rightarrow> (Inl err, code', s2)
             | (Inr None, code', s2) \<Rightarrow> (Inr None, code', s2)
             | (Inr (Some token), code', s2) \<Rightarrow>
                 (case reget e url scope (Some token) s2 of (r, s3) \<Rightarrow> (r, code', s3)))
          else (case reget e url scope None s1 of (r, s3) \<Rightarrow> (r, code, s3)))"

subsection \<open>The blob GET: get_data\<close>

definition get_data ::
  "env \<Rightarrow> string \<Rightarrow> 64 word \<Rightarrow> 64 word \<Rightarrow> state \<Rightarrow> (error + int \<times> HTTP_OP) \<times> state" where
  \<comment> \<open>the result is the returned \<^verbatim>\<open>long\<close> and the operation as the call leaves it;
      \<^verbatim>\<open>offset + count - 1\<close> is computed in 64 bits\<close>
  "get_data e url offset count s =
     (case acquire m_url_info m_url_info_update UrlInfoCache kMinimalAUrlLife url
             (get_actual_url e url) 0 s of
        (Inl err, ret, s1) \<Rightarrow> (Inl err, s1)
      | (Inr None, ret, s1) \<Rightarrow> (Inr (ret, HTTP_OP_new), s1)
      | (Inr (Some actual_info), ret, s1) \<Rightarrow>
          (let actual_url = (if mode actual_info = Redirect then info actual_info else url);
               actual_url' = (if m_accelerate s1 \<noteq> [] then m_accelerate s1 @ ''/'' @ actual_url
                              else actual_url);
               headers = (if mode actual_info = Self \<and> info actual_info \<noteq> []
                          then [(kAuthHeaderKey, ''Bearer '' @ info actual_info)] else [])
           in case call e \<lparr>req_url = actual_url', req_headers = headers,
                            req_range = Some (offset, offset + count - 1)\<rparr> s1 of
                (op, s2) \<Rightarrow>
                  if status_code op = 200 \<or> status_code op = 206
                  then (Inr (ret, op), release m_url_info_update UrlInfoCache url False s2)
                  else (Inr (ret, op), release m_url_info_update UrlInfoCache url True s2)))"

subsection \<open>The registry file: get_length, fstat and preadv\<close>

record RegistryFileImpl_v2 =
  m_url :: string
  m_timeout :: nat
  m_filesize :: "64 word"

record stat =
  st_mode :: nat
  st_size :: "64 word"

definition S_IFREG :: nat where "S_IFREG = 32768"
definition S_IREAD :: nat where "S_IREAD = 256"

definition Timeout :: "nat \<Rightarrow> nat \<Rightarrow> nat" where
  \<comment> \<open>\<^verbatim>\<open>Timeout tmo(timeout)\<close> at time \<open>t\<close>: the expiry, a saturating 64-bit sum\<close>
  "Timeout t timeout = min (t + timeout) (2 ^ 64 - 1)"

fun get_length_again :: "env \<Rightarrow> string \<Rightarrow> nat \<Rightarrow> nat \<Rightarrow> state \<Rightarrow> (error + 64 word) \<times> state" where
  \<comment> \<open>the loop of \<^verbatim>\<open>get_length\<close> from the label \<^verbatim>\<open>again\<close>; \<^verbatim>\<open>if (retry--)\<close> passes while
      \<^verbatim>\<open>retry\<close> is not 0\<close>
  "get_length_again e url expire retry s =
     (case get_data e url 0 1 s of
        (Inl err, s1) \<Rightarrow> (Inl err, s1)
      | (Inr (ret, op), s1) \<Rightarrow>
          if status_code op \<noteq> 200 \<and> status_code op \<noteq> 206 then
            if expire < now s1 then (Inl (Errno ETIMEDOUT), s1)
            else if status_code op = 401 \<or> status_code op = 403 then
              (case retry of
                 Suc n \<Rightarrow> get_length_again e url expire n s1
               | 0 \<Rightarrow> (Inl (Errno EPERM), s1))
            else
              (case retry of
                 Suc n \<Rightarrow> get_length_again e url expire n s1
               | 0 \<Rightarrow> (Inl (Errno ENOENT), s1))
          else (Inr (resource_size e (resp_headers (resp op))), s1))"

definition get_length ::
  "env \<Rightarrow> RegistryFileImpl_v2 \<Rightarrow> nat \<Rightarrow> state \<Rightarrow> (error + 64 word) \<times> state" where
  "get_length e f timeout s = get_length_again e (m_url f) (Timeout (now s) timeout) 3 s"

definition fstat ::
  "env \<Rightarrow> RegistryFileImpl_v2 \<Rightarrow> state \<Rightarrow> (error + stat) \<times> RegistryFileImpl_v2 \<times> state" where
  \<comment> \<open>\<^verbatim>\<open>ret\<close> is an \<^verbatim>\<open>int64_t\<close>: the test \<^verbatim>\<open>ret < 0\<close> reads it signed\<close>
  "fstat e f s =
     (if m_filesize f = 0 then
        (case get_length e f (m_timeout f) s of
           (Inl err, s1) \<Rightarrow> (Inl err, f, s1)
         | (Inr ret, s1) \<Rightarrow>
             if sint ret < 0 then (Inl Unset, f, s1)
             else (Inr \<lparr>st_mode = S_IFREG + S_IREAD, st_size = ret\<rparr>, f\<lparr>m_filesize := ret\<rparr>, s1))
      else (Inr \<lparr>st_mode = S_IFREG + S_IREAD, st_size = m_filesize f\<rparr>, f, s))"

definition view_sum :: "64 word list \<Rightarrow> 64 word" where
  \<comment> \<open>\<^verbatim>\<open>iovector_view::sum()\<close>: the \<^verbatim>\<open>iov_len\<close> of the buffers, added in \<^verbatim>\<open>size_t\<close>\<close>
  "view_sum iov = sum_list iov"

definition readv :: "response \<Rightarrow> 64 word list \<Rightarrow> string" where
  \<comment> \<open>Modelled from the spec: \<^verbatim>\<open>op.resp.readv(iov, iovcnt)\<close> streams the body into the
      buffers and returns the bytes read (section 4.6); the returned count is the length\<close>
  "readv rs iov = take (sum_list (map unat iov)) (resp_body rs)"

definition preadv_count :: "64 word list \<Rightarrow> 64 word \<Rightarrow> 64 word \<Rightarrow> 64 word" where
  \<comment> \<open>lines 358 to 360: \<^verbatim>\<open>count + offset\<close> and \<^verbatim>\<open>filesize - offset\<close> are unsigned 64-bit\<close>
  "preadv_count iov offset filesize =
     (let count = view_sum iov
      in if count + offset > filesize then filesize - offset else count)"

fun preadv_again ::
  "env \<Rightarrow> string \<Rightarrow> 64 word list \<Rightarrow> 64 word \<Rightarrow> 64 word \<Rightarrow> nat \<Rightarrow> nat \<Rightarrow> state \<Rightarrow>
   (error + string) \<times> state" where
  \<comment> \<open>the loop of \<^verbatim>\<open>preadv\<close> from the label \<^verbatim>\<open>again\<close>; \<^verbatim>\<open>thread_usleep(1000)\<close> moves the
      clock by 1000 microseconds\<close>
  "preadv_again e url iov offset filesize expire retry s =
     (case get_data e url offset (preadv_count iov offset filesize) s of
        (Inl err, s1) \<Rightarrow> (Inl err, s1)
      | (Inr (ret, op), s1) \<Rightarrow>
          if status_code op \<noteq> 200 \<and> status_code op \<noteq> 206 then
            if expire < now s1 then (Inl (Errno ETIMEDOUT), s1)
            else
              (case retry of
                 Suc n \<Rightarrow>
                   preadv_again e url iov offset filesize expire n (s1\<lparr>now := now s1 + 1000\<rparr>)
               | 0 \<Rightarrow> (Inl (Errno ENOENT), s1))
          else (Inr (readv (resp op) iov), s1))"

definition preadv ::
  "env \<Rightarrow> RegistryFileImpl_v2 \<Rightarrow> 64 word list \<Rightarrow> 64 word \<Rightarrow> state \<Rightarrow>
   (error + string) \<times> RegistryFileImpl_v2 \<times> state" where
  \<comment> \<open>\<open>Inr bytes\<close> is the return of \<^verbatim>\<open>readv\<close>: the count is \<open>length bytes\<close>\<close>
  "preadv e f iov offset s =
     (if m_filesize f = 0 then
        (case fstat e f s of
           (Inl err, f1, s1) \<Rightarrow> (Inl err, f1, s1)
         | (Inr st, f1, s1) \<Rightarrow>
             (case preadv_again e (m_url f1) iov offset (st_size st)
                     (Timeout (now s1) (m_timeout f1)) 3 s1 of
                (r, s2) \<Rightarrow> (r, f1\<lparr>m_filesize := st_size st\<rparr>, s2)))
      else
        (case preadv_again e (m_url f) iov offset (m_filesize f)
                (Timeout (now s) (m_timeout f)) 3 s of
           (r, s2) \<Rightarrow> (r, f, s2)))"

subsection \<open>The requests the code builds\<close>

text \<open>Names for the requests of the code, used to state what is sent.\<close>

definition probe_request :: "string \<Rightarrow> request" where
  \<comment> \<open>the GET of \<^verbatim>\<open>get_scope_auth\<close>\<close>
  "probe_request url = \<lparr>req_url = url, req_headers = [], req_range = Some (0, 0)\<rparr>"

definition auth_request :: "env \<Rightarrow> string \<Rightarrow> string \<Rightarrow> string \<Rightarrow> request" where
  \<comment> \<open>the GET of \<^verbatim>\<open>authenticate\<close>\<close>
  "auth_request e authurl username password =
     \<lparr>req_url = authurl,
      req_headers =
        (if username \<noteq> []
         then [(''Authorization'', ''Basic '' @ Base64Encode e (username @ '':'' @ password))]
         else []),
      req_range = None\<rparr>"

definition bearer_request :: "string \<Rightarrow> string \<Rightarrow> request" where
  \<comment> \<open>the second GET of \<^verbatim>\<open>get_actual_url\<close>, with the token\<close>
  "bearer_request url tok =
     \<lparr>req_url = url, req_headers = [(''Authorization'', ''Bearer '' @ tok)], req_range = None\<rparr>"

definition blob_request :: "string \<Rightarrow> string \<Rightarrow> UrlInfo \<Rightarrow> 64 word \<Rightarrow> 64 word \<Rightarrow> request" where
  \<comment> \<open>the ranged GET of \<^verbatim>\<open>get_data\<close>, from the accelerator address and the URL information\<close>
  "blob_request accelerate url actual_info offset count =
     \<lparr>req_url =
        (if accelerate \<noteq> []
         then accelerate @ ''/'' @ (if mode actual_info = Redirect then info actual_info else url)
         else (if mode actual_info = Redirect then info actual_info else url)),
      req_headers =
        (if mode actual_info = Self \<and> info actual_info \<noteq> []
         then [(''Authorization'', ''Bearer '' @ info actual_info)] else []),
      req_range = Some (offset, offset + count - 1)\<rparr>"

definition format_challenge :: "string \<Rightarrow> string \<Rightarrow> string \<Rightarrow> string" where
  \<comment> \<open>the challenge of the wire protocol after the prefix:
      \<^verbatim>\<open>realm="...",service="...",scope="..."\<close>\<close>
  "format_challenge realm service scope =
     ''realm='' @ CHR 0x22 # realm @ CHR 0x22 # '',service='' @ CHR 0x22 # service @
     CHR 0x22 # '',scope='' @ CHR 0x22 # scope @ [CHR 0x22]"

subsection \<open>Notions of the statements\<close>





definition ranges_within :: "(64 word \<times> 64 word) option set \<Rightarrow> state \<Rightarrow> state \<Rightarrow> bool" where
  \<comment> \<open>from \<open>s\<close> to \<open>s'\<close> requests were only added, each with a range of \<open>R\<close> (\<open>None\<close>: no range)\<close>
  "ranges_within R s s' = (\<exists>rs. sent s' = sent s @ rs \<and> (\<forall>rq\<in>set rs. req_range rq \<in> R))"

subsection \<open>A concrete registry for the examples\<close>

text \<open>
  The examples run the code against a server that gives its answers in the order in which
  the requests arrive; when it has no answer left the connection fails (status -1). The
  blob of the examples is the ten bytes \<open>0123456789\<close> at the URL \<open>u\<close>. The stand-ins for
  the decoders know the one credential pair and the few JSON bodies that the examples use
  (the token body, an object with a number for the token, the empty object and the empty
  array; any other body is not JSON), and the resource size is read from
  \<^verbatim>\<open>Content-Range\<close> (after the slash) or else from \<^verbatim>\<open>Content-Length\<close>.
\<close>

definition scripted ::
  "((int \<times> response) \<times> nat) list \<Rightarrow> request list \<Rightarrow> request \<Rightarrow> (int \<times> response) \<times> nat" where
  "scripted answers hist rq =
     (case drop (length hist) answers of
        [] \<Rightarrow> ((-1, \<lparr>resp_headers = [], resp_body = []\<rparr>), 0)
      | a # _ \<Rightarrow> a)"

definition decimal :: "string \<Rightarrow> 64 word" where
  "decimal ds = foldl (\<lambda>n c. 10 * n + of_nat (of_char c - 48)) 0 ds"

definition size_of_headers :: "(string \<times> string) list \<Rightarrow> 64 word" where
  "size_of_headers hs =
     (case headers_find hs ''Content-Range'' of
        Some v \<Rightarrow> decimal (drop 1 (dropWhile (\<lambda>c. c \<noteq> CHR ''/'') v))
      | None \<Rightarrow> decimal (headers_get hs ''Content-Length''))"

definition ex_env :: "((int \<times> response) \<times> nat) list \<Rightarrow> env" where
  \<open>ex_env answers =
     \<lparr>serve = scripted answers,
      Base64Encode = (\<lambda>x. if x = ''u:p'' then ''dTpw'' else []),
      json_parse = (\<lambda>x. if x = ''{"token":"T"}'' then Some (JObject [(''token'', JString ''T'')])
                         else if x = ''{"token":1}'' then Some (JObject [(''token'', JOther)])
                         else if x = ''{}'' then Some (JObject [])
                         else if x = ''[]'' then Some JOther
                         else None),
      m_callback = (\<lambda>url. (''u'', ''p'')),
      resource_size = size_of_headers\<rparr>\<close>

definition ex_state :: state where
  \<comment> \<open>a filesystem just constructed: empty caches, no accelerator\<close>
  "ex_state =
     \<lparr>now = 0, sent = [], trace = [], m_accelerate = [],
      m_scope_token = Map.empty, m_url_info = Map.empty\<rparr>"

definition ex_file :: RegistryFileImpl_v2 where
  \<comment> \<open>a file just constructed on the URL \<open>''u''\<close>, with a timeout of one second\<close>
  "ex_file = \<lparr>m_url = ''u'', m_timeout = 1000000, m_filesize = 0\<rparr>"

definition answer :: "int \<Rightarrow> (string \<times> string) list \<Rightarrow> string \<Rightarrow> (int \<times> response) \<times> nat" where
  \<comment> \<open>an answer with a status, headers and a body, after one microsecond\<close>
  "answer code headers body = ((code, \<lparr>resp_headers = headers, resp_body = body\<rparr>), 1)"

definition challenge_401 :: "(int \<times> response) \<times> nat" where
  \<comment> \<open>the registry asks for a token of the realm \<open>a\<close>, service \<open>r\<close>, scope \<open>p\<close>\<close>
  \<open>challenge_401 =
     ((401, \<lparr>resp_headers = [(''Www-Authenticate'', ''Bearer realm="a",service="r",scope="p"'')],
             resp_body = []\<rparr>), 1)\<close>

definition lowercase_challenge_401 :: "(int \<times> response) \<times> nat" where
  \<comment> \<open>the challenge of \<open>challenge_401\<close> with the scheme written \<open>bearer\<close>\<close>
  \<open>lowercase_challenge_401 =
     ((401, \<lparr>resp_headers = [(''Www-Authenticate'', ''bearer realm="a",service="r",scope="p"'')],
             resp_body = []\<rparr>), 1)\<close>

definition token_200 :: "(int \<times> response) \<times> nat" where
  \<comment> \<open>the token service answers with the token \<open>T\<close>\<close>
  \<open>token_200 = ((200, \<lparr>resp_headers = [], resp_body = ''{"token":"T"}''\<rparr>), 1)\<close>

definition redirect_302 :: "(int \<times> response) \<times> nat" where
  \<comment> \<open>the registry redirects to the blob store\<close>
  "redirect_302 =
     ((302, \<lparr>resp_headers = [(''Location'', ''https://cdn/abc'')], resp_body = []\<rparr>), 1)"

definition whole_200 :: "(int \<times> response) \<times> nat" where
  \<comment> \<open>the registry answers a GET with the whole blob\<close>
  "whole_200 = answer 200 [(''Content-Length'', ''10'')] ''0123456789''"

definition first_byte_206 :: "(int \<times> response) \<times> nat" where
  \<comment> \<open>the registry answers a GET with the first byte of the blob, as the range 0-0 asks\<close>
  "first_byte_206 = answer 206 [(''Content-Range'', ''bytes 0-0/10'')] ''0''"

definition denied :: "((int \<times> response) \<times> nat) list" where
  \<comment> \<open>a registry that resolves the URL and then answers each ranged GET with 401\<close>
  "denied = [challenge_401, token_200, whole_200, answer 401 [] [],
             challenge_401, whole_200, answer 401 [] [],
             challenge_401, whole_200, answer 401 [] [],
             challenge_401, whole_200, answer 401 [] []]"

definition resized :: "((int \<times> response) \<times> nat) list" where
  \<comment> \<open>a registry that reports the size 0 for the blob at first and the size 5 later\<close>
  "resized = [challenge_401, token_200, answer 200 [(''Content-Length'', ''0'')] [],
              answer 200 [(''Content-Length'', ''0'')] [],
              answer 206 [(''Content-Range'', ''bytes 0-0/5'')] ''0'']"

definition range_ignored :: "((int \<times> response) \<times> nat) list" where
  \<comment> \<open>a registry that answers the ranged GET of a read with the whole blob, status 200\<close>
  "range_ignored = [challenge_401, token_200, whole_200, first_byte_206, whole_200]"

section \<open>Properties\<close>

lemmas model_defs =
  get_data_def acquire_def lookup_live_def get_actual_url_def token_ctor_def authenticate_def
  parse_token_def GetString_def reget_def release_def release_entry_def get_scope_auth_def
  call_def headers_find_def headers_get_def lower_char_def starts_with_def str_to_kvmap_def
  estring_split_def kv_of_token_def find_first_of_def estring_trim_def kAuthHeaderKey_def
  kBearerAuthPrefix_def kDockerRegistryAuthChallengeKeyValuePrefix_def kMinimalTokenLife_def
  kMinimalAUrlLife_def Let_def

lemmas file_defs =
  fstat_def get_length_def Timeout_def preadv_def preadv_count_def view_sum_def readv_def
  S_IFREG_def S_IREAD_def

lemmas example_defs =
  ex_env_def ex_state_def ex_file_def scripted_def challenge_401_def token_200_def answer_def
  decimal_def size_of_headers_def redirect_302_def denied_def resized_def range_ignored_def
  lowercase_challenge_401_def whole_200_def first_byte_206_def

declare get_length_again.simps [simp del]

declare preadv_again.simps [simp del]

subsection \<open>What each step does to the state\<close>

lemma call_effect:
  assumes "call e rq s = (op, s1)"
  shows "sent s1 = sent s @ [rq]" "trace s1 = trace s" "m_scope_token s1 = m_scope_token s"
    "m_url_info s1 = m_url_info s" "m_accelerate s1 = m_accelerate s" "now s \<le> now s1"
    "req op = rq" "status_code op = fst (fst (serve e (sent s) rq))"
    "resp op = snd (fst (serve e (sent s) rq))"
  using assms by (auto simp: call_def split: prod.splits)

lemma get_scope_auth_effect:
  assumes "get_scope_auth e url s = (r, s1)"
  shows "sent s1 = sent s @ [probe_request url]"
    "trace s1 = trace s" "m_scope_token s1 = m_scope_token s"
    "m_url_info s1 = m_url_info s" "m_accelerate s1 = m_accelerate s" "now s \<le> now s1"
proof -
  obtain op s' where c: "call e (probe_request url) s = (op, s')"
    by (cases "call e (probe_request url) s")
  have "s1 = s'"
    using assms c
    by (auto simp: get_scope_auth_def probe_request_def Let_def split: if_splits option.splits)
  with call_effect [OF c]
  show "sent s1 = sent s @ [probe_request url]"
    "trace s1 = trace s" "m_scope_token s1 = m_scope_token s"
    "m_url_info s1 = m_url_info s" "m_accelerate s1 = m_accelerate s" "now s \<le> now s1"
    by simp_all
qed

lemma authenticate_effect:
  assumes "authenticate e authurl username password s = (r, s1)"
  shows "sent s1 = sent s @ [auth_request e authurl username password]"
    "trace s1 = trace s" "m_scope_token s1 = m_scope_token s"
    "m_url_info s1 = m_url_info s" "m_accelerate s1 = m_accelerate s" "now s \<le> now s1"
proof -
  obtain op s' where c: "call e (auth_request e authurl username password) s = (op, s')"
    by (cases "call e (auth_request e authurl username password) s")
  have "s1 = s'"
    using assms c by (auto simp: authenticate_def auth_request_def kAuthHeaderKey_def Let_def split: if_splits)
  with call_effect [OF c]
  show "sent s1 = sent s @ [auth_request e authurl username password]"
    "trace s1 = trace s" "m_scope_token s1 = m_scope_token s"
    "m_url_info s1 = m_url_info s" "m_accelerate s1 = m_accelerate s" "now s \<le> now s1"
    by simp_all
qed




lemma release_token_effect:
  "trace (release m_scope_token_update ScopeToken key p s) = trace s @ [Release ScopeToken key p]"
  "sent (release m_scope_token_update ScopeToken key p s) = sent s"
  "now (release m_scope_token_update ScopeToken key p s) = now s"
  "m_url_info (release m_scope_token_update ScopeToken key p s) = m_url_info s"
  "m_accelerate (release m_scope_token_update ScopeToken key p s) = m_accelerate s"
  by (simp_all add: release_def)

lemma reget_Some:
  assumes "call e (bearer_request url tok) s = (op, s1)"
  shows "reget e url scope (Some tok) s =
     (if 300 \<le> status_code op \<and> status_code op < 400 then
        (Inr (Some \<lparr>mode = Redirect, info = headers_get (resp_headers (resp op)) ''Location''\<rparr>),
         if scope \<noteq> [] then release m_scope_token_update ScopeToken scope False s1 else s1)
      else if status_code op = 200 then
        (Inr (Some \<lparr>mode = Self, info = (if tok \<noteq> [] then ''Bearer '' @ tok else [])\<rparr>),
         if scope \<noteq> [] then release m_scope_token_update ScopeToken scope False s1 else s1)
      else (Inr None,
            if scope \<noteq> [] then release m_scope_token_update ScopeToken scope True s1 else s1))"
  using assms by (simp add: reget_def bearer_request_def kAuthHeaderKey_def kBearerAuthPrefix_def)




lemma release_url_info_effect:
  "trace (release m_url_info_update UrlInfoCache key p s) = trace s @ [Release UrlInfoCache key p]"
  "sent (release m_url_info_update UrlInfoCache key p s) = sent s"
  "now (release m_url_info_update UrlInfoCache key p s) = now s"
  "m_scope_token (release m_url_info_update UrlInfoCache key p s) = m_scope_token s"
  "m_accelerate (release m_url_info_update UrlInfoCache key p s) = m_accelerate s"
  by (simp_all add: release_def)

subsection \<open>The probe of a public blob\<close>

lemma get_scope_auth_no_challenge:
  assumes "fst (fst (serve e (sent s) (probe_request url))) \<notin> {- 1, 401, 403}"
  shows "fst (get_scope_auth e url s) = Inr ([], [])"
proof -
  obtain code rs dt where "serve e (sent s) (probe_request url) = ((code, rs), dt)"
    by (metis prod.exhaust)
  with assms show ?thesis by (simp add: get_scope_auth_def call_def probe_request_def)
qed

text \<open>
  C1. A blob whose probe (GET with Range 0-0) is answered with a 2xx status and no challenge
  should resolve to Self with no bearer. In the code the resolver goes on to the second GET
  whatever status other than -1, 401 and 403 the probe had; no scope token was acquired, so
  \<^verbatim>\<open>token\<close> is still null, and line 207 dereferences it to build the Authorization header
  of that GET. The resolver has no result, and the probe is the only request that was sent.
\<close>

theorem get_actual_url_public_blob:
  assumes "fst (fst (serve e (sent s) (probe_request url))) \<notin> {- 1, 401, 403}"
  shows "fst (get_actual_url e url code s) = Inl NullDeref \<and>
         sent (snd (snd (get_actual_url e url code s))) = sent s @ [probe_request url]"
proof -
  obtain s1 where sa: "get_scope_auth e url s = (Inr ([], []), s1)"
    using get_scope_auth_no_challenge [OF assms] by (cases "get_scope_auth e url s") simp
  then have "get_actual_url e url code s = (Inl NullDeref, code, s1)"
    by (simp add: get_actual_url_def reget_def)
  with get_scope_auth_effect(1) [OF sa] show ?thesis by simp
qed

text \<open>
  The probe of the public blob \<open>u\<close> is answered with 206 and the first byte: the resolver
  has no result.
\<close>

theorem get_actual_url_public_blob_witness:
  "fst (fst (serve (ex_env [first_byte_206]) (sent ex_state) (probe_request ''u''))) = 206 \<and>
   fst (get_actual_url (ex_env [first_byte_206]) ''u'' 0 ex_state) = Inl NullDeref \<and>
   sent (snd (snd (get_actual_url (ex_env [first_byte_206]) ''u'' 0 ex_state))) =
     [probe_request ''u'']"
  using get_actual_url_public_blob [of "ex_env [first_byte_206]" ex_state "''u''" 0]
  by (simp add: example_defs)

subsection \<open>The Authorization header of the blob GET\<close>

lemma redirect_mode_header:
  "req_headers (blob_request accelerate url \<lparr>mode = Redirect, info = location\<rparr> offset count) = []"
  by (simp add: blob_request_def)

lemma self_mode_header:
  "tok \<noteq> [] \<Longrightarrow>
     req_headers (blob_request accelerate url \<lparr>mode = Self, info = kBearerAuthPrefix @ tok\<rparr>
       offset count) = [(''Authorization'', ''Bearer Bearer '' @ tok)]"
  by (simp add: blob_request_def kBearerAuthPrefix_def)

text \<open>
  C2. A GET of \<^verbatim>\<open>get_data\<close> in Self mode with the token T should carry the header
  Authorization with the value \<open>Bearer T\<close>. The resolver stores the token with the prefix
  (line 223) and \<^verbatim>\<open>get_data\<close> puts the prefix before it again (lines 141 and 142). Here the
  registry challenges the probe, the token service issues \<open>T\<close>, the second GET of the
  resolver is answered with 200 and the ranged GET with 206: the resolver's own GET carries
  \<open>Bearer T\<close>, the ranged GET of \<^verbatim>\<open>get_data\<close> carries \<open>Bearer Bearer T\<close>.
\<close>

theorem get_data_bearer_twice:
  "map req_headers
     (sent (snd (get_data
                   (ex_env [challenge_401, token_200, whole_200, first_byte_206])
                   ''u'' 0 1 ex_state))) =
   [[], [(''Authorization'', ''Basic dTpw'')], [(''Authorization'', ''Bearer T'')],
    [(''Authorization'', ''Bearer Bearer T'')]]"
  by (simp add: example_defs model_defs)

subsection \<open>The byte count of preadv\<close>

lemma get_data_unfold:
  "get_data e url offset count s =
     (case acquire m_url_info m_url_info_update UrlInfoCache kMinimalAUrlLife url
             (get_actual_url e url) 0 s of
        (Inl err, ret, s1) \<Rightarrow> (Inl err, s1)
      | (Inr None, ret, s1) \<Rightarrow> (Inr (ret, HTTP_OP_new), s1)
      | (Inr (Some actual_info), ret, s1) \<Rightarrow>
          (case call e (blob_request (m_accelerate s1) url actual_info offset count) s1 of
             (op, s2) \<Rightarrow>
               if status_code op = 200 \<or> status_code op = 206
               then (Inr (ret, op), release m_url_info_update UrlInfoCache url False s2)
               else (Inr (ret, op), release m_url_info_update UrlInfoCache url True s2)))"
  unfolding get_data_def blob_request_def Let_def kAuthHeaderKey_def by (rule refl)

lemma get_data_Some:
  assumes "acquire m_url_info m_url_info_update UrlInfoCache kMinimalAUrlLife url
             (get_actual_url e url) 0 s = (Inr (Some ui), ret, s1)"
    and "call e (blob_request (m_accelerate s1) url ui offset count) s1 = (op, s2)"
  shows "get_data e url offset count s =
           (Inr (ret, op),
            release m_url_info_update UrlInfoCache url
              (status_code op \<noteq> 200 \<and> status_code op \<noteq> 206) s2)"
  unfolding get_data_unfold using assms by simp

lemma ranges_cong: "sent s'' = sent s' \<Longrightarrow> ranges_within R s s' \<Longrightarrow> ranges_within R s s''"
  by (simp add: ranges_within_def)

lemma ranges_same: "sent s' = sent s \<Longrightarrow> ranges_within R s s'"
  by (simp add: ranges_within_def)

lemma ranges_trans:
  "ranges_within R s s1 \<Longrightarrow> ranges_within R s1 s2 \<Longrightarrow> ranges_within R s s2"
  unfolding ranges_within_def by (metis append.assoc set_append UnE)

lemma ranges_one:
  "sent s' = sent s @ [rq] \<Longrightarrow> req_range rq \<in> R \<Longrightarrow> ranges_within R s s'"
  by (simp add: ranges_within_def)

lemma ranges_length: "ranges_within R s s' \<Longrightarrow> length (sent s) \<le> length (sent s')"
  by (auto simp: ranges_within_def)

lemma ranges_get_scope_auth:
  "get_scope_auth e url s = (r, s1) \<Longrightarrow> Some (0, 0) \<in> R \<Longrightarrow> ranges_within R s s1"
  by (rule ranges_one [OF get_scope_auth_effect(1)]) (simp_all add: probe_request_def)

lemma ranges_authenticate:
  "authenticate e authurl username password s = (r, s1) \<Longrightarrow> None \<in> R \<Longrightarrow> ranges_within R s s1"
  by (rule ranges_one [OF authenticate_effect(1)]) (simp_all add: auth_request_def)

lemma ranges_token_ctor:
  assumes "token_ctor e url authurl code s = (r, code', s1)" "None \<in> R"
  shows "ranges_within R s s1"
proof -
  obtain username password where cb: "m_callback e url = (username, password)"
    by (cases "m_callback e url")
  obtain r0 s' where a: "authenticate e authurl username password s = (r0, s')"
    by (cases "authenticate e authurl username password s")
  have "s1 = s'"
    using assms cb a by (auto simp: token_ctor_def split: sum.splits option.splits)
  with ranges_authenticate [OF a assms(2)] show ?thesis by simp
qed

lemma ranges_acquire_token:
  assumes "acquire m_scope_token m_scope_token_update ScopeToken life scope
             (token_ctor e url authurl) code s = (r, code', s1)" "None \<in> R"
  shows "ranges_within R s s1"
proof (cases "lookup_live (m_scope_token s) (now s) scope")
  case (Some en)
  with assms show ?thesis by (auto simp: acquire_def intro!: ranges_same)
next
  case None
  obtain r0 c0 s' where t: "token_ctor e url authurl code s = (r0, c0, s')"
    by (cases "token_ctor e url authurl code s")
  have "sent s1 = sent s'"
    using assms None t by (auto simp: acquire_def split: sum.splits option.splits)
  from ranges_trans [OF ranges_token_ctor [OF t assms(2)] ranges_same [OF this]]
  show ?thesis .
qed

lemma ranges_reget:
  assumes "reget e url scope token s = (r, s1)" "None \<in> R"
  shows "ranges_within R s s1"
proof (cases token)
  case None
  with assms show ?thesis by (auto simp: reget_def intro!: ranges_same)
next
  case (Some tok)
  obtain op s' where c: "call e (bearer_request url tok) s = (op, s')"
    by (cases "call e (bearer_request url tok) s")
  have "sent s1 = sent s'"
    using assms(1) unfolding Some reget_Some [OF c]
    by (auto simp: release_token_effect split: if_splits)
  moreover have "ranges_within R s s'"
    by (rule ranges_one [OF call_effect(1) [OF c]]) (simp add: bearer_request_def assms(2))
  ultimately show ?thesis by (metis ranges_same ranges_trans)
qed

lemma get_actual_url_sent:
  assumes g: "get_actual_url e url code s = (r, code', s')" and R: "None \<in> R"
  shows "\<exists>s1. sent s1 = sent s @ [probe_request url] \<and> ranges_within R s1 s'"
proof -
  obtain ra s1 where sa: "get_scope_auth e url s = (ra, s1)" by (cases "get_scope_auth e url s")
  note r1 = get_scope_auth_effect(1) [OF sa]
  have "ranges_within R s1 s'"
  proof (cases ra)
    case (Inl err)
    with g sa have "s' = s1" by (simp add: get_actual_url_def)
    then show ?thesis by (simp add: ranges_same)
  next
    case (Inr p)
    obtain authurl scope where p: "p = (authurl, scope)" by (cases p)
    show ?thesis
    proof (cases "scope = []")
      case True
      obtain rr s3 where rg: "reget e url scope None s1 = (rr, s3)"
        by (cases "reget e url scope None s1")
      with g sa Inr p True have "s' = s3" by (simp add: get_actual_url_def)
      with ranges_reget [OF rg R] show ?thesis by simp
    next
      case False
      obtain ar c2 s2 where acq: "acquire m_scope_token m_scope_token_update ScopeToken
          kMinimalTokenLife scope (token_ctor e url authurl) code s1 = (ar, c2, s2)"
        by (cases "acquire m_scope_token m_scope_token_update ScopeToken
          kMinimalTokenLife scope (token_ctor e url authurl) code s1") 
      note r2 = ranges_acquire_token [OF acq R]
      show ?thesis
      proof (cases "\<exists>tok. ar = Inr (Some tok)")
        case True
        then obtain tok where tok: "ar = Inr (Some tok)" by blast
        obtain rr s3 where rg: "reget e url scope (Some tok) s2 = (rr, s3)"
          by (cases "reget e url scope (Some tok) s2")
        with g sa Inr p False acq tok have "s' = s3" by (simp add: get_actual_url_def)
        with ranges_trans [OF r2 ranges_reget [OF rg R]] show ?thesis by simp
      next
        case no: False
        with g sa Inr p False acq have "s' = s2"
          by (auto simp: get_actual_url_def split: sum.splits option.splits)
        with r2 show ?thesis by simp
      qed
    qed
  qed
  with r1 show ?thesis by blast
qed

lemma ranges_get_data:
  assumes g: "get_data e url offset count s = (r, s')"
    and R: "None \<in> R" "Some (0, 0) \<in> R" "Some (offset, offset + count - 1) \<in> R"
  shows "ranges_within R s s' \<and> sent s' \<noteq> sent s"
proof -
  obtain ar ret s1 where acq: "acquire m_url_info m_url_info_update UrlInfoCache kMinimalAUrlLife url
      (get_actual_url e url) 0 s = (ar, ret, s1)"
    by (cases "acquire m_url_info m_url_info_update UrlInfoCache kMinimalAUrlLife url
      (get_actual_url e url) 0 s")
  have r1: "ranges_within R s s1 \<and> ((\<exists>ui. ar = Inr (Some ui)) \<or> sent s1 \<noteq> sent s)"
  proof (cases "lookup_live (m_url_info s) (now s) url")
    case (Some en)
    with acq show ?thesis by (auto simp: acquire_def intro!: ranges_same)
  next
    case None
    obtain r0 c0 s0 where ctor: "get_actual_url e url 0 s = (r0, c0, s0)"
      by (cases "get_actual_url e url 0 s")
    have eq: "sent s1 = sent s0"
      using acq None ctor by (auto simp: acquire_def split: sum.splits option.splits)
    obtain sp where sp: "sent sp = sent s @ [probe_request url]" "ranges_within R sp s0"
      using get_actual_url_sent [OF ctor R(1)] by blast
    have "ranges_within R s sp"
      by (rule ranges_one [OF sp(1)]) (simp add: probe_request_def R(2))
    from this sp(2) have "ranges_within R s s0" by (rule ranges_trans)
    moreover have "sent s0 \<noteq> sent s"
      using ranges_length [OF sp(2)] sp(1) by auto
    ultimately show ?thesis using eq by (simp add: ranges_cong)
  qed
  show ?thesis
  proof (cases "\<exists>ui. ar = Inr (Some ui)")
    case True
    then obtain ui where ui: "ar = Inr (Some ui)" by blast
    obtain op s2 where c: "call e (blob_request (m_accelerate s1) url ui offset count) s1 = (op, s2)"
      by (cases "call e (blob_request (m_accelerate s1) url ui offset count) s1")
    have eq: "sent s' = sent s2"
      using g unfolding get_data_Some [OF acq [unfolded ui] c]
      by (auto simp: release_url_info_effect)
    have "ranges_within R s1 s2"
      by (rule ranges_one [OF call_effect(1) [OF c]]) (simp add: blob_request_def R(3))
    with r1 have r2: "ranges_within R s s2" by (blast intro: ranges_trans)
    have "length (sent s) \<le> length (sent s1)" using r1 by (blast intro: ranges_length)
    moreover have "length (sent s2) = Suc (length (sent s1))"
      using call_effect(1) [OF c] by simp
    ultimately have "sent s2 \<noteq> sent s" by auto
    with r2 eq show ?thesis by (simp add: ranges_cong)
  next
    case False
    with g acq have "s' = s1"
      unfolding get_data_unfold by (auto split: sum.splits option.splits)
    with r1 False show ?thesis by simp
  qed
qed


lemma ranges_preadv_again:
  assumes "preadv_again e url iov offset filesize expire retry s = (r, s')"
    and R: "None \<in> R" "Some (0, 0) \<in> R"
      "Some (offset, offset + preadv_count iov offset filesize - 1) \<in> R"
  shows "ranges_within R s s' \<and> sent s' \<noteq> sent s \<and>
         (\<forall>bytes. r = Inr bytes \<longrightarrow> length bytes \<le> sum_list (map unat iov))"
  using assms(1)
proof (induction retry arbitrary: s)
  case 0
  obtain a s1 where g: "get_data e url offset (preadv_count iov offset filesize) s = (a, s1)"
    by (cases "get_data e url offset (preadv_count iov offset filesize) s")
  from ranges_get_data [OF g R] 0 g show ?case
    by (auto simp: preadv_again.simps [of e url iov offset filesize expire 0 s] readv_def
        split: sum.splits prod.splits if_splits)
next
  case (Suc n)
  obtain a s1 where g: "get_data e url offset (preadv_count iov offset filesize) s = (a, s1)"
    by (cases "get_data e url offset (preadv_count iov offset filesize) s")
  note r1 = ranges_get_data [OF g R]
  show ?case
  proof (cases "\<exists>ret op. a = Inr (ret, op) \<and> status_code op \<noteq> 200 \<and> status_code op \<noteq> 206
                  \<and> \<not> expire < now s1")
    case True
    with Suc.prems g have "preadv_again e url iov offset filesize expire n
        (s1\<lparr>now := now s1 + 1000\<rparr>) = (r, s')"
      by (auto simp: preadv_again.simps [of e url iov offset filesize expire "Suc n" s])
    from Suc.IH [OF this] have ih: "ranges_within R (s1\<lparr>now := now s1 + 1000\<rparr>) s'"
      "\<forall>bytes. r = Inr bytes \<longrightarrow> length bytes \<le> sum_list (map unat iov)" by simp_all
    have "ranges_within R s1 (s1\<lparr>now := now s1 + 1000\<rparr>)" by (simp add: ranges_same)
    with r1 ih(1) have r2: "ranges_within R s s'" by (blast intro: ranges_trans)
    have "length (sent s1) \<le> length (sent s')" using ranges_length [OF ih(1)] by simp
    moreover have "length (sent s) \<le> length (sent s1)" "sent s1 \<noteq> sent s"
      using r1 by (blast intro: ranges_length)+
    moreover obtain rs where "sent s1 = sent s @ rs" using r1 by (auto simp: ranges_within_def)
    ultimately have "sent s' \<noteq> sent s" by auto
    with r2 ih(2) show ?thesis by simp
  next
    case False
    with Suc.prems g r1 show ?thesis
      by (auto simp: preadv_again.simps [of e url iov offset filesize expire "Suc n" s] readv_def
          split: sum.splits prod.splits if_splits)
  qed
qed

lemma preadv_count_in_range:
  assumes "unat (view_sum iov) + unat offset < 2 ^ 64" and "unat offset \<le> unat filesize"
  shows "unat (preadv_count iov offset filesize) =
           min (unat (view_sum iov)) (unat filesize - unat offset)"
proof -
  have a: "unat (view_sum iov + offset) = unat (view_sum iov) + unat offset"
    using assms(1) by (simp add: unat_add_lem [THEN iffD1])
  have s: "unat (filesize - offset) = unat filesize - unat offset"
    using assms(2) by (simp add: unat_sub word_le_nat_alt)
  show ?thesis
    using a s by (auto simp: preadv_count_def Let_def word_less_nat_alt)
qed

lemma preadv_count_past_end:
  assumes "unat (view_sum iov) + unat offset < 2 ^ 64" and "unat filesize < unat offset"
  shows "preadv_count iov offset filesize = filesize - offset \<and>
         preadv_count iov offset filesize \<noteq> 0"
proof -
  have a: "unat (view_sum iov + offset) = unat (view_sum iov) + unat offset"
    using assms(1) by (simp add: unat_add_lem [THEN iffD1])
  have "filesize < view_sum iov + offset"
    using a assms(2) by (simp add: word_less_nat_alt)
  then have "preadv_count iov offset filesize = filesize - offset"
    by (simp add: preadv_count_def Let_def)
  moreover have "filesize \<noteq> offset" using assms(2) by auto
  ultimately show ?thesis by simp
qed

lemma unat_sum_list:
  "sum_list (map unat (iov :: 64 word list)) < 2 ^ 64 \<Longrightarrow>
     unat (sum_list iov) = sum_list (map unat iov)"
proof (induction iov)
  case Nil
  show ?case by simp
next
  case (Cons a iov)
  then have "unat (sum_list iov) = sum_list (map unat iov)" by simp
  moreover from Cons.prems have "unat a + sum_list (map unat iov) < 2 ^ 64" by simp
  ultimately show ?case by (simp add: unat_add_lem [THEN iffD1])
qed

lemma get_data_answered:
  assumes g: "get_data e url offset count s = (Inr (ret, op), s')"
    and ok: "status_code op = 200 \<or> status_code op = 206"
  shows "req_range (req op) = Some (offset, offset + count - 1) \<and> last (sent s') = req op"
proof -
  obtain a c s1 where acq: "acquire m_url_info m_url_info_update UrlInfoCache kMinimalAUrlLife url
      (get_actual_url e url) 0 s = (a, c, s1)"
    by (cases "acquire m_url_info m_url_info_update UrlInfoCache kMinimalAUrlLife url
      (get_actual_url e url) 0 s")
  show ?thesis
  proof (cases a)
    case (Inl err)
    with g acq show ?thesis by (simp add: get_data_unfold)
  next
    case (Inr u)
    show ?thesis
    proof (cases u)
      case None
      with g acq Inr ok show ?thesis by (auto simp: get_data_unfold HTTP_OP_new_def)
    next
      case (Some ui)
      obtain op' s2 where c: "call e (blob_request (m_accelerate s1) url ui offset count) s1 = (op', s2)"
        by (cases "call e (blob_request (m_accelerate s1) url ui offset count) s1")
      from g have "op' = op"
        "s' = release m_url_info_update UrlInfoCache url
                (status_code op' \<noteq> 200 \<and> status_code op' \<noteq> 206) s2"
        unfolding get_data_Some [OF acq [unfolded Inr Some] c] by auto
      with call_effect [OF c] show ?thesis
        by (simp add: blob_request_def release_url_info_effect)
    qed
  qed
qed

lemma preadv_again_bytes:
  "preadv_again e url iov offset filesize expire retry s = (Inr bytes, s') \<Longrightarrow>
     \<exists>s0 ret op. get_data e url offset (preadv_count iov offset filesize) s0 = (Inr (ret, op), s') \<and>
       (status_code op = 200 \<or> status_code op = 206) \<and> bytes = readv (resp op) iov"
proof (induction retry arbitrary: s)
  case 0
  obtain a s1 where g: "get_data e url offset (preadv_count iov offset filesize) s = (a, s1)"
    by (cases "get_data e url offset (preadv_count iov offset filesize) s")
  from 0 g show ?case
    by (auto simp: preadv_again.simps [of e url iov offset filesize expire 0 s]
        split: sum.splits prod.splits if_splits)
next
  case (Suc n)
  obtain a s1 where g: "get_data e url offset (preadv_count iov offset filesize) s = (a, s1)"
    by (cases "get_data e url offset (preadv_count iov offset filesize) s")
  show ?case
  proof (cases "\<exists>ret op. a = Inr (ret, op) \<and> status_code op \<noteq> 200 \<and> status_code op \<noteq> 206
                  \<and> \<not> expire < now s1")
    case True
    with Suc.prems g have "preadv_again e url iov offset filesize expire n
        (s1\<lparr>now := now s1 + 1000\<rparr>) = (Inr bytes, s')"
      by (auto simp: preadv_again.simps [of e url iov offset filesize expire "Suc n" s])
    from Suc.IH [OF this] show ?thesis .
  next
    case False
    with Suc.prems g show ?thesis
      by (auto simp: preadv_again.simps [of e url iov offset filesize expire "Suc n" s]
          split: sum.splits prod.splits if_splits)
  qed
qed

lemma preadv_count_inside:
  assumes "sum_list (map unat iov) + unat offset < 2 ^ 64" and "offset < filesize"
  shows "unat (preadv_count iov offset filesize) =
           min (sum_list (map unat iov)) (unat filesize - unat offset)"
proof -
  have v: "unat (view_sum iov) = sum_list (map unat iov)"
    using assms(1) by (simp add: view_sum_def unat_sum_list)
  from assms(2) have "unat offset \<le> unat filesize" by (simp add: word_less_nat_alt)
  from preadv_count_in_range [OF _ this, of iov] assms(1) v show ?thesis by simp
qed

text \<open>
  C3, as the code has it. On a file whose size is known, for an offset below that size and
  a request that does not pass the end of the 64-bit range (\<open>requested + offset < 2^64\<close>,
  where \<open>requested\<close> is the total length of the buffers), the count of the ranged GET is
  \<open>min(requested, filesize - offset)\<close> (lines 358 to 360), and every request that \<^verbatim>\<open>preadv\<close>
  issues is a request of the resolver (no range, or the range 0-0) or the ranged GET from
  \<open>offset\<close> with that count. A successful \<^verbatim>\<open>preadv\<close> returns what \<^verbatim>\<open>readv\<close> reads from the
  response of a call of \<^verbatim>\<open>get_data\<close> that was answered with 200 or 206 to that ranged GET,
  the last request sent: the first bytes of the body, at most \<open>requested\<close> of them. The
  code does not compare their number with \<open>filesize - offset\<close>.
\<close>

theorem preadv_clamp:
  assumes known: "m_filesize f \<noteq> 0"
    and inside: "offset < m_filesize f"
    and fits: "sum_list (map unat iov) + unat offset < 2 ^ 64"
    and p: "preadv e f iov offset s = (r, f', s')"
  shows "unat (preadv_count iov offset (m_filesize f)) =
           min (sum_list (map unat iov)) (unat (m_filesize f) - unat offset) \<and>
         ranges_within
           {None, Some (0, 0), Some (offset, offset + preadv_count iov offset (m_filesize f) - 1)}
           s s' \<and>
         (\<forall>bytes. r = Inr bytes \<longrightarrow>
            length bytes \<le> sum_list (map unat iov) \<and>
            (\<exists>s0 ret op.
               get_data e (m_url f) offset (preadv_count iov offset (m_filesize f)) s0 =
                 (Inr (ret, op), s') \<and>
               (status_code op = 200 \<or> status_code op = 206) \<and>
               req_range (req op) =
                 Some (offset, offset + preadv_count iov offset (m_filesize f) - 1) \<and>
               last (sent s') = req op \<and>
               bytes = readv (resp op) iov))"
proof -
  have a: "preadv_again e (m_url f) iov offset (m_filesize f) (Timeout (now s) (m_timeout f)) 3 s =
          (r, s')"
    using known p by (auto simp: preadv_def split: prod.splits)
  have b: "\<exists>s0 ret op.
               get_data e (m_url f) offset (preadv_count iov offset (m_filesize f)) s0 =
                 (Inr (ret, op), s') \<and>
               (status_code op = 200 \<or> status_code op = 206) \<and>
               req_range (req op) =
                 Some (offset, offset + preadv_count iov offset (m_filesize f) - 1) \<and>
               last (sent s') = req op \<and>
               bytes = readv (resp op) iov" if "r = Inr bytes" for bytes
  proof -
    from preadv_again_bytes [OF a [unfolded that]] obtain s0 ret op where
      g: "get_data e (m_url f) offset (preadv_count iov offset (m_filesize f)) s0 =
            (Inr (ret, op), s')"
      and ok: "status_code op = 200 \<or> status_code op = 206"
      and bs: "bytes = readv (resp op) iov" by blast
    from get_data_answered [OF g ok] g ok bs show ?thesis by blast
  qed
  from ranges_preadv_again [OF a, of
      "{None, Some (0, 0), Some (offset, offset + preadv_count iov offset (m_filesize f) - 1)}"]
  have c: "ranges_within
           {None, Some (0, 0), Some (offset, offset + preadv_count iov offset (m_filesize f) - 1)}
           s s'"
    and d: "\<forall>bytes. r = Inr bytes \<longrightarrow> length bytes \<le> sum_list (map unat iov)"
    by simp_all
  from preadv_count_inside [OF fits inside] b c d show ?thesis by blast
qed

text \<open>Five bytes are asked for at offset 8 of the blob of 10 bytes: the GET asks for 8 to 9.\<close>

theorem preadv_clamp_witness:
  "fst (preadv (ex_env [challenge_401, token_200, whole_200,
                        answer 206 [(''Content-Range'', ''bytes 8-9/10'')] ''89''])
          (ex_file\<lparr>m_filesize := 10\<rparr>) [5] 8 ex_state) = Inr ''89'' \<and>
   unat (preadv_count [5] 8 10) = 2 \<and>
   ranges_within {None, Some (0, 0), Some (8, 9)} ex_state
     (snd (snd (preadv (ex_env [challenge_401, token_200, whole_200,
                                answer 206 [(''Content-Range'', ''bytes 8-9/10'')] ''89''])
          (ex_file\<lparr>m_filesize := 10\<rparr>) [5] 8 ex_state))) \<and>
   req_range (last (sent (snd (snd (preadv (ex_env [challenge_401, token_200, whole_200,
                                answer 206 [(''Content-Range'', ''bytes 8-9/10'')] ''89''])
          (ex_file\<lparr>m_filesize := 10\<rparr>) [5] 8 ex_state))))) = Some (8, 9)"
proof -
  let ?e = "ex_env [challenge_401, token_200, whole_200,
                    answer 206 [(''Content-Range'', ''bytes 8-9/10'')] ''89'']"
  let ?f = "ex_file\<lparr>m_filesize := 10\<rparr>"
  define f' where "f' = fst (snd (preadv ?e ?f [5] 8 ex_state))"
  define s' where "s' = snd (snd (preadv ?e ?f [5] 8 ex_state))"
  have p: "preadv ?e ?f [5] 8 ex_state = (Inr ''89'', f', s')"
    unfolding f'_def s'_def
    by (simp add: prod_eq_iff get_length_again.simps preadv_again.simps file_defs example_defs
        model_defs)
  have k: "m_filesize ?f \<noteq> 0" "m_filesize ?f = 10" by simp_all
  have i: "(8 :: 64 word) < m_filesize ?f"
    "sum_list (map unat [5 :: 64 word]) + unat (8 :: 64 word) < 2 ^ 64"
    by simp_all
  have c: "preadv_count [5] 8 10 = 2" "(8 :: 64 word) + 2 - 1 = 9"
    by (simp_all add: preadv_count_def view_sum_def)
  from preadv_clamp [OF k(1) i p] show ?thesis
    unfolding p k(2) c by auto
qed

text \<open>
  C3 as stated fails. The file is opened on the blob of 10 bytes, and the server answers
  the ranged GET of a read with the whole blob. Five bytes asked for at offset 8 give
  five bytes, more than the two that are left. Five bytes asked for at offset 10, the
  size of the file, do not give 0 bytes: the count is 0, the GET goes out with the range
  10 to 9, and the call returns five bytes. Five bytes asked for at offset 20 do not give
  0 bytes either: the count is \<open>2^64 - 10\<close>, the GET goes out with the range 20 to 9, and
  the call returns five bytes. And a request of \<open>2^64 - 4\<close> bytes at offset 8 is not
  clamped to the two bytes that are left: \<open>count + offset\<close> wraps to 4, which is not above
  the size.
\<close>

theorem preadv_counterexample:
  "fst (preadv (ex_env range_ignored) ex_file [5] 8 ex_state) = Inr ''01234'' \<and>
   req_range (last (sent (snd (snd (preadv (ex_env range_ignored) ex_file [5] 8 ex_state))))) =
     Some (8, 9) \<and>
   fst (preadv (ex_env range_ignored) ex_file [5] 10 ex_state) = Inr ''01234'' \<and>
   req_range (last (sent (snd (snd (preadv (ex_env range_ignored) ex_file [5] 10 ex_state))))) =
     Some (10, 9) \<and>
   fst (preadv (ex_env range_ignored) ex_file [5] 20 ex_state) = Inr ''01234'' \<and>
   req_range (last (sent (snd (snd (preadv (ex_env range_ignored) ex_file [5] 20 ex_state))))) =
     Some (20, 9) \<and>
   preadv_count [5] 20 10 = 18446744073709551606 \<and>
   preadv_count [18446744073709551612] 8 10 = 18446744073709551612"
  by (simp add: get_length_again.simps preadv_again.simps file_defs example_defs model_defs)

subsection \<open>The second GET of the resolver\<close>




subsection \<open>The file size of a registry file\<close>







subsection \<open>The challenge parser\<close>

lemma split_raw_no_delim: "c \<notin> set xs \<Longrightarrow> split_raw c xs = [xs]"
  by (induction xs) auto

lemma split_raw_append: "c \<notin> set xs \<Longrightarrow> split_raw c (xs @ c # ys) = xs # split_raw c ys"
  by (induction xs) auto

lemma split_three:
  assumes "c \<notin> set a" "c \<notin> set b" "c \<notin> set d" "a \<noteq> []" "b \<noteq> []" "d \<noteq> []"
  shows "estring_split (a @ c # b @ c # d) c = [a, b, d]"
  using assms by (simp add: estring_split_def split_raw_append split_raw_no_delim)

lemma dropWhile_none: "c \<notin> set xs \<Longrightarrow> dropWhile (\<lambda>x. x = c) xs = xs"
  by (cases xs) auto

lemma trim_quoted: "c \<notin> set v \<Longrightarrow> estring_trim (c # v @ [c]) c = v"
proof -
  assume c: "c \<notin> set v"
  have "dropWhile (\<lambda>x. x = c) (c # v @ [c]) = (if v = [] then [] else v @ [c])"
    using c by (cases v) auto
  moreover have "rev (dropWhile (\<lambda>x. x = c) (rev (v @ [c]))) = v"
    using c dropWhile_none [of c "rev v"] by simp
  ultimately show ?thesis by (simp add: estring_trim_def)
qed

lemma takeWhile_stop: "c \<notin> set xs \<Longrightarrow> takeWhile (\<lambda>x. x \<noteq> c) (xs @ c # ys) = xs"
  by (induction xs) auto

lemma kv_of_quoted:
  assumes "CHR ''='' \<notin> set key" "CHR 0x22 \<notin> set v"
  shows "kv_of_token (key @ CHR ''='' # CHR 0x22 # v @ [CHR 0x22]) = (key, v)"
proof -
  have "takeWhile (\<lambda>x. x \<noteq> CHR ''='') (key @ CHR ''='' # CHR 0x22 # v @ [CHR 0x22]) = key"
    using assms(1) by (rule takeWhile_stop)
  then show ?thesis
    using assms(2) by (simp add: kv_of_token_def find_first_of_def trim_quoted)
qed

lemma str_to_kvmap_format:
  assumes "\<forall>c\<in>set (realm @ service @ scope). c \<noteq> CHR '','' \<and> c \<noteq> CHR 0x22"
  shows "str_to_kvmap (format_challenge realm service scope) =
           [(''realm'', realm), (''service'', service), (''scope'', scope)]"
proof -
  let ?a = "''realm'' @ CHR ''='' # CHR 0x22 # realm @ [CHR 0x22]"
  let ?b = "''service'' @ CHR ''='' # CHR 0x22 # service @ [CHR 0x22]"
  let ?d = "''scope'' @ CHR ''='' # CHR 0x22 # scope @ [CHR 0x22]"
  have f: "format_challenge realm service scope = ?a @ CHR '','' # ?b @ CHR '','' # ?d"
    by (simp add: format_challenge_def)
  have "estring_split (?a @ CHR '','' # ?b @ CHR '','' # ?d) CHR '','' = [?a, ?b, ?d]"
    using assms by (intro split_three) auto
  moreover have "kv_of_token ?a = (''realm'', realm)" "kv_of_token ?b = (''service'', service)"
    "kv_of_token ?d = (''scope'', scope)"
    using assms by (intro kv_of_quoted; auto)+
  ultimately show ?thesis unfolding f str_to_kvmap_def by simp
qed


lemma get_scope_auth_unfold:
  assumes sv: "serve e (sent s) (probe_request url) = ((code, rs), dt)"
    and st: "code = 401 \<or> code = 403"
    and h: "headers_find (resp_headers rs) ''www-authenticate'' = Some line"
  shows "fst (get_scope_auth e url s) =
          (if starts_with line ''Bearer '' \<and>
              map_of (str_to_kvmap (drop 7 line)) ''realm'' \<noteq> None \<and>
              map_of (str_to_kvmap (drop 7 line)) ''service'' \<noteq> None \<and>
              map_of (str_to_kvmap (drop 7 line)) ''scope'' \<noteq> None
           then Inr (the (map_of (str_to_kvmap (drop 7 line)) ''realm'') @ ''?service='' @
                     the (map_of (str_to_kvmap (drop 7 line)) ''service'') @ ''&scope='' @
                     the (map_of (str_to_kvmap (drop 7 line)) ''scope''),
                     the (map_of (str_to_kvmap (drop 7 line)) ''scope''))
           else Inl (Errno EINVAL))"
proof -
  have c: "call e \<lparr>req_url = url, req_headers = [], req_range = Some (0, 0)\<rparr> s =
      (\<lparr>req = probe_request url, status_code = code, resp = rs\<rparr>,
       s\<lparr>now := now s + dt, sent := sent s @ [probe_request url]\<rparr>)"
    using sv by (simp add: call_def probe_request_def)
  have len: "length kBearerAuthPrefix = 7" by (simp add: kBearerAuthPrefix_def)
  have "get_scope_auth e url s =
      (if \<not> starts_with line kBearerAuthPrefix
       then (Inl (Errno EINVAL), s\<lparr>now := now s + dt, sent := sent s @ [probe_request url]\<rparr>)
       else
         (let kv = map_of (str_to_kvmap (drop 7 line))
          in if kv ''realm'' = None \<or> kv ''service'' = None \<or> kv ''scope'' = None
             then (Inl (Errno EINVAL), s\<lparr>now := now s + dt, sent := sent s @ [probe_request url]\<rparr>)
             else
               (Inr (the (kv ''realm'') @ ''?service='' @ the (kv ''service'') @
                     ''&scope='' @ the (kv ''scope''),
                     the (kv ''scope'')),
                s\<lparr>now := now s + dt, sent := sent s @ [probe_request url]\<rparr>)))"
    unfolding get_scope_auth_def c len using st h
    by (auto simp: kDockerRegistryAuthChallengeKeyValuePrefix_def)
  then show ?thesis
    by (simp add: kBearerAuthPrefix_def Let_def)
qed

text \<open>
  C6, as the code has it. On a 401 or 403 with a \<^verbatim>\<open>www-authenticate\<close> header, the parser
  accepts the value only when it starts with the bytes \<open>Bearer\<close> and a space, compared
  as they are; it strips that prefix, splits the rest on commas into \<open>key=value\<close> pairs
  with the double quotes around a value stripped, and fails with EINVAL when the prefix is
  not there or one of the keys realm, service, scope is missing. On success the scope is
  the value of \<open>scope\<close> and the authentication URL is
  \<open>{realm}?service={service}&scope={scope}\<close>, the values verbatim: a challenge
  \<^verbatim>\<open>Bearer realm="R",service="S",scope="X"\<close> whose values hold no comma and no double
  quote gives \<open>R?service=S&scope=X\<close> and the scope \<open>X\<close>.
\<close>

theorem get_scope_auth_challenge:
  assumes sv: "serve e (sent s) (probe_request url) = ((code, rs), dt)"
    and st: "code = 401 \<or> code = 403"
    and h: "headers_find (resp_headers rs) ''www-authenticate'' = Some line"
  shows "fst (get_scope_auth e url s) =
          (if starts_with line ''Bearer '' \<and>
              map_of (str_to_kvmap (drop 7 line)) ''realm'' \<noteq> None \<and>
              map_of (str_to_kvmap (drop 7 line)) ''service'' \<noteq> None \<and>
              map_of (str_to_kvmap (drop 7 line)) ''scope'' \<noteq> None
           then Inr (the (map_of (str_to_kvmap (drop 7 line)) ''realm'') @ ''?service='' @
                     the (map_of (str_to_kvmap (drop 7 line)) ''service'') @ ''&scope='' @
                     the (map_of (str_to_kvmap (drop 7 line)) ''scope''),
                     the (map_of (str_to_kvmap (drop 7 line)) ''scope''))
           else Inl (Errno EINVAL)) \<and>
         (\<forall>realm service scope.
            (\<forall>c\<in>set (realm @ service @ scope). c \<noteq> CHR '','' \<and> c \<noteq> CHR 0x22) \<and>
            line = ''Bearer '' @ format_challenge realm service scope \<longrightarrow>
            fst (get_scope_auth e url s) =
              Inr (realm @ ''?service='' @ service @ ''&scope='' @ scope, scope))"
proof (intro conjI allI impI)
  show "fst (get_scope_auth e url s) =
          (if starts_with line ''Bearer '' \<and>
              map_of (str_to_kvmap (drop 7 line)) ''realm'' \<noteq> None \<and>
              map_of (str_to_kvmap (drop 7 line)) ''service'' \<noteq> None \<and>
              map_of (str_to_kvmap (drop 7 line)) ''scope'' \<noteq> None
           then Inr (the (map_of (str_to_kvmap (drop 7 line)) ''realm'') @ ''?service='' @
                     the (map_of (str_to_kvmap (drop 7 line)) ''service'') @ ''&scope='' @
                     the (map_of (str_to_kvmap (drop 7 line)) ''scope''),
                     the (map_of (str_to_kvmap (drop 7 line)) ''scope''))
           else Inl (Errno EINVAL))"
    by (rule get_scope_auth_unfold [OF sv st h])
next
  fix realm service scope
  assume a: "(\<forall>c\<in>set (realm @ service @ scope). c \<noteq> CHR '','' \<and> c \<noteq> CHR 0x22) \<and>
            line = ''Bearer '' @ format_challenge realm service scope"
  then have kv: "str_to_kvmap (drop 7 line) =
      [(''realm'', realm), (''service'', service), (''scope'', scope)]"
    using str_to_kvmap_format [of realm service scope] by simp
  have "starts_with line ''Bearer ''" using a by (simp add: starts_with_def)
  then show "fst (get_scope_auth e url s) =
      Inr (realm @ ''?service='' @ service @ ''&scope='' @ scope, scope)"
    unfolding get_scope_auth_unfold [OF sv st h] kv by simp
qed

text \<open>The challenge of the registry of the examples.\<close>

theorem get_scope_auth_challenge_witness:
  "fst (get_scope_auth (ex_env [challenge_401]) ''u'' ex_state) = Inr (''a?service=r&scope=p'', ''p'')"
proof -
  let ?e = "ex_env [challenge_401]"
  have sv: \<open>serve ?e (sent ex_state) (probe_request ''u'') =
      ((401, \<lparr>resp_headers = [(''Www-Authenticate'', ''Bearer realm="a",service="r",scope="p"'')],
              resp_body = []\<rparr>), 1)\<close>
    by (simp add: example_defs)
  have h: \<open>headers_find
      (resp_headers \<lparr>resp_headers = [(''Www-Authenticate'', ''Bearer realm="a",service="r",scope="p"'')],
              resp_body = []\<rparr>) ''www-authenticate'' = Some ''Bearer realm="a",service="r",scope="p"''\<close>
    by (simp add: headers_find_def lower_char_def)
  have l: \<open>''Bearer realm="a",service="r",scope="p"'' = ''Bearer '' @ format_challenge ''a'' ''r'' ''p''\<close>
    by (simp add: format_challenge_def)
  from get_scope_auth_challenge [OF sv _ h, THEN conjunct2, rule_format, of "''a''" "''r''" "''p''"] l
  show ?thesis by simp
qed

text \<open>
  C6 as stated fails: the same challenge with the scheme written \<open>bearer\<close> is rejected
  with EINVAL.
\<close>

theorem lowercase_bearer_counterexample:
  "fst (get_scope_auth (ex_env [lowercase_challenge_401]) ''u'' ex_state) = Inl (Errno EINVAL)"
  by (simp add: example_defs model_defs)

subsection \<open>The errors of get_length\<close>





lemma get_length_examples:
  "fst (get_length (ex_env [challenge_401, token_200, whole_200, first_byte_206]) ex_file 1000000
          ex_state) = Inr 10"
  "fst (get_length (ex_env [challenge_401, token_200, whole_200, answer 500 [] []]) ex_file 2
          ex_state) = Inl (Errno ETIMEDOUT)"
  "fst (get_length (ex_env []) ex_file 1000000 ex_state) = Inl (Errno ENOENT)"
  by (simp_all add: get_length_def Timeout_def get_length_again.simps HTTP_OP_new_def example_defs
      model_defs)


subsection \<open>Token acquisition\<close>

lemma authenticate_unfold:
  "authenticate e authurl username password s =
     (case call e (auth_request e authurl username password) s of
        (op, s1) \<Rightarrow>
          if status_code op \<noteq> 200 then (Inr None, s1)
          else (parse_token e (take (16 * 1024) (resp_body (resp op))), s1))"
  by (simp add: authenticate_def auth_request_def kAuthHeaderKey_def Let_def)

lemma authenticate_result:
  assumes sv: "serve e (sent s) (auth_request e authurl username password) = ((status, rs), dt)"
  shows "fst (authenticate e authurl username password s) =
           (if status \<noteq> 200 then Inr None
            else parse_token e (take (16 * 1024) (resp_body rs)))"
  unfolding authenticate_unfold using sv by (simp add: call_def)

lemma acquire_token_result:
  assumes live: "lookup_live (m_scope_token s) (now s) scope = None"
    and cb: "m_callback e url = (username, password)"
    and a: "authenticate e authurl username password s = (r, s1)"
  shows "acquire m_scope_token m_scope_token_update ScopeToken kMinimalTokenLife scope
           (token_ctor e url authurl) code s =
           (case r of
              Inl err \<Rightarrow> (Inl err, code, s1)
            | Inr None \<Rightarrow> (Inr None, 401, s1)
            | Inr (Some token) \<Rightarrow>
                (Inr (Some token), code,
                 (m_scope_token_update
                    (\<lambda>c. c(scope \<mapsto> \<lparr>entry_value = token,
                                        expires_at = now s1 + kMinimalTokenLife,
                                        refcount = 1, poisoned = False\<rparr>)) s1)
                   \<lparr>trace := trace s1 @ [Acquire ScopeToken scope]\<rparr>))"
  using live cb a by (simp add: acquire_def token_ctor_def split: sum.splits option.splits)

text \<open>
  What \<^verbatim>\<open>authenticate\<close> does with the answer of the token service. The GET to the auth
  URL carries \<open>Authorization: Basic base64(user:password)\<close> exactly when the user name is
  not empty. When the status is not 200 the acquisition fails. On 200 the first 16 KiB
  of the body are parsed as JSON: a body that does not parse fails; for an object, the
  token is the member \<open>token\<close> if there is one, else the member \<open>access_token\<close>, and with
  neither member the acquisition fails. The type of the document and of the member is not
  tested (lines 292 to 295): a document that is no object, and a member that is no string,
  end in the assertion of rapidjson. The cache of scope tokens is not touched, and the
  constructor of the scope token hands the result on: a failure sets the code 401 and
  nothing is cached, a token is installed with the lifetime of the cache.
\<close>

lemma authenticate_object_body:
  assumes a: "authenticate e authurl username password s = (r, s1)"
    and sv: "serve e (sent s) (auth_request e authurl username password) = ((status, rs), dt)"
  shows "sent s1 = sent s @
           [\<lparr>req_url = authurl,
             req_headers =
               (if username \<noteq> []
                then [(''Authorization'', ''Basic '' @ Base64Encode e (username @ '':'' @ password))]
                else []),
             req_range = None\<rparr>]"
    and "status \<noteq> 200 \<Longrightarrow> r = Inr None"
    and "status = 200 \<Longrightarrow> json_parse e (take 16384 (resp_body rs)) = None \<Longrightarrow> r = Inr None"
    and "status = 200 \<Longrightarrow> json_parse e (take 16384 (resp_body rs)) = Some (JObject ms) \<Longrightarrow>
           r = (case map_of ms ''token'' of
                  Some v \<Rightarrow> (case v of JString t \<Rightarrow> Inr (Some t) | _ \<Rightarrow> Inl RapidjsonAssert)
                | None \<Rightarrow>
                    (case map_of ms ''access_token'' of
                       Some v \<Rightarrow> (case v of JString t \<Rightarrow> Inr (Some t) | _ \<Rightarrow> Inl RapidjsonAssert)
                     | None \<Rightarrow> Inr None))"
    and "status = 200 \<Longrightarrow> json_parse e (take 16384 (resp_body rs)) = Some d \<Longrightarrow>
           (\<forall>ms. d \<noteq> JObject ms) \<Longrightarrow> r = Inl RapidjsonAssert"
    and "m_scope_token s1 = m_scope_token s"
proof -
  have r: "r = (if status \<noteq> 200 then Inr None else parse_token e (take (16 * 1024) (resp_body rs)))"
    using authenticate_result [OF sv] a by simp
  show "sent s1 = sent s @
           [\<lparr>req_url = authurl,
             req_headers =
               (if username \<noteq> []
                then [(''Authorization'', ''Basic '' @ Base64Encode e (username @ '':'' @ password))]
                else []),
             req_range = None\<rparr>]"
    using authenticate_effect(1) [OF a] by (simp add: auth_request_def)
  show "m_scope_token s1 = m_scope_token s" using authenticate_effect(3) [OF a] .
  show "status \<noteq> 200 \<Longrightarrow> r = Inr None" using r by simp
  show "status = 200 \<Longrightarrow> json_parse e (take 16384 (resp_body rs)) = None \<Longrightarrow> r = Inr None"
    using r by (simp add: parse_token_def)
  show "status = 200 \<Longrightarrow> json_parse e (take 16384 (resp_body rs)) = Some (JObject ms) \<Longrightarrow>
           r = (case map_of ms ''token'' of
                  Some v \<Rightarrow> (case v of JString t \<Rightarrow> Inr (Some t) | _ \<Rightarrow> Inl RapidjsonAssert)
                | None \<Rightarrow>
                    (case map_of ms ''access_token'' of
                       Some v \<Rightarrow> (case v of JString t \<Rightarrow> Inr (Some t) | _ \<Rightarrow> Inl RapidjsonAssert)
                     | None \<Rightarrow> Inr None))"
    using r by (simp add: parse_token_def GetString_def split: option.splits json.splits)
  show "status = 200 \<Longrightarrow> json_parse e (take 16384 (resp_body rs)) = Some d \<Longrightarrow>
           (\<forall>ms. d \<noteq> JObject ms) \<Longrightarrow> r = Inl RapidjsonAssert"
    using r by (cases d) (simp_all add: parse_token_def)
qed

text \<open>
  C8 fails on the code. The token service answers 200 with the body \<open>[]\<close>, a JSON document
  with neither field: \<^verbatim>\<open>parse_token\<close> calls \<^verbatim>\<open>HasMember\<close> on a document that is no object,
  and the acquisition does not fail, it ends in the assertion of rapidjson, and so does the
  read that asked for the token. The same happens in \<^verbatim>\<open>GetString\<close> when the field \<open>token\<close>
  is a number. The bodies next to these fail as C8 says: the object \<open>{}\<close> with neither
  field (the branch of line 297), a body that is no JSON (line 291), and any body with a
  status other than 200.
\<close>

theorem authenticate_unchecked_json:
  \<open>fst (authenticate (ex_env [answer 200 [] ''[]'']) ''a'' ''u'' ''p'' ex_state) =
     Inl RapidjsonAssert \<and>
   fst (authenticate (ex_env [answer 200 [] ''{"token":1}'']) ''a'' ''u'' ''p'' ex_state) =
     Inl RapidjsonAssert \<and>
   fst (get_data (ex_env [challenge_401, answer 200 [] ''[]'']) ''u'' 0 1 ex_state) =
     Inl RapidjsonAssert \<and>
   fst (authenticate (ex_env [answer 200 [] ''{}'']) ''a'' ''u'' ''p'' ex_state) = Inr None \<and>
   fst (authenticate (ex_env [answer 200 [] ''{'']) ''a'' ''u'' ''p'' ex_state) = Inr None \<and>
   fst (authenticate (ex_env [answer 403 [] ''{"token":"T"}'']) ''a'' ''u'' ''p'' ex_state) =
     Inr None \<and>
   fst (authenticate (ex_env [token_200]) ''a'' ''u'' ''p'' ex_state) = Inr (Some ''T'')\<close>
  by (simp add: example_defs model_defs)

subsection \<open>The scope token handle of the resolver\<close>



subsection \<open>The code that get_data returns\<close>





end
